theory Spec2Isabelle
  imports Complex_Main "HOL-Library.Multiset"
begin

section \<open>MultiQC plotly plots: violin, bar and scatter data reduction\<close>

text \<open>
  A shallow embedding of the data-reduction code of
  \<^verbatim>\<open>multiqc/plots/plotly/violin.py\<close>, \<^verbatim>\<open>bar.py\<close> and \<^verbatim>\<open>scatter.py\<close>.

  Modelling decisions that hold for the whole development:
  \<^item> Python floats and ints that carry measurements are exact reals (\<^typ>\<open>real\<close>);
    rounding of IEEE arithmetic is not modelled. A NaN is modelled as a value of
    its own wherever the source tests for it.
  \<^item> A Python exception is a value of type \<open>error\<close> on the left of a sum.
  \<^item> A \<^verbatim>\<open>dict\<close> whose order matters (sample to value) is an association list in
    insertion order.
  \<^item> Values read from \<^verbatim>\<open>multiqc.config\<close> and helpers of other modules are parameters.
\<close>

datatype error = ValueError | AssertionError | IndexError | ZeroDivisionError

subsection \<open>numpy routines used by the source\<close>

text \<open>\<^verbatim>\<open>np.mean\<close> and \<^verbatim>\<open>np.std\<close> (population standard deviation, \<^verbatim>\<open>ddof=0\<close>).\<close>

definition np_mean :: "real list \<Rightarrow> real" where
  "np_mean xs = sum_list xs / real (length xs)"

definition np_std :: "real list \<Rightarrow> real" where
  "np_std xs = sqrt (np_mean (map (\<lambda>x. \<bar>x - np_mean xs\<bar> ^ 2) xs))"

text \<open>
  \<^verbatim>\<open>np.argsort(xs)\<close>: the indices of \<open>xs\<close> in ascending order of their values. Equal
  values are kept in index order here (numpy's default sort leaves their order open).
\<close>

definition np_argsort :: "('a::linorder) list \<Rightarrow> nat list" where
  "np_argsort xs = sort_key (\<lambda>i. xs ! i) [0..<length xs]"

text \<open>\<^verbatim>\<open>np.where(z_scores > z_cutoff)[0]\<close>\<close>

definition np_where_gt :: "real list \<Rightarrow> real \<Rightarrow> nat list" where
  "np_where_gt zs c = filter (\<lambda>i. zs ! i > c) [0..<length zs]"

text \<open>\<^verbatim>\<open>outlier_status[indices] = True\<close> for indices inside the array.\<close>

definition set_true :: "bool list \<Rightarrow> nat list \<Rightarrow> bool list" where
  "set_true status idxs = fold (\<lambda>i m. m[i := True]) idxs status"

text \<open>\<^verbatim>\<open>xs[-n:]\<close> for \<open>n > 0\<close>: the last \<open>n\<close> entries, all of them when \<open>n\<close> exceeds the length.\<close>

definition last_n :: "nat \<Rightarrow> 'a list \<Rightarrow> 'a list" where
  "last_n n xs = drop (length xs - n) xs"

text \<open>
  \<^verbatim>\<open>xs[::s]\<close> for a positive step: positions \<open>0, s, 2s, ...\<close> below the length,
  that is \<open>ceil(len / s)\<close> entries.
\<close>

definition slice_step :: "'a list \<Rightarrow> nat \<Rightarrow> 'a list" where
  "slice_step xs s = map (\<lambda>i. xs ! (i * s)) [0..<(length xs + s - 1) div s]"

subsection \<open>violin.py: \<^verbatim>\<open>find_outliers\<close>\<close>

text \<open>
  The loop of lines 757-761:
  \<^verbatim>\<open>
  indices = np.where(z_scores > z_cutoff)[0]
  while len(indices) <= len(added_values) and z_cutoff > 1.0:
      z_cutoff -= 0.2
      indices = np.where(z_scores > z_cutoff)[0]
  \<close>
  The state is \<open>(z_cutoff, indices)\<close>; the last argument counts the executions of the
  loop body and plays no part in the result.
\<close>

function cutoff_loop ::
  "real list \<Rightarrow> nat \<Rightarrow> real \<Rightarrow> nat list \<Rightarrow> nat \<Rightarrow> nat list \<times> real \<times> nat" where
  "cutoff_loop z_scores n_added z_cutoff indices k =
     (if length indices \<le> n_added \<and> z_cutoff > 1.0
      then cutoff_loop z_scores n_added (z_cutoff - 0.2)
             (np_where_gt z_scores (z_cutoff - 0.2)) (Suc k)
      else (indices, z_cutoff, k))"
  by pat_completeness auto
termination
proof (relation "measure (\<lambda>(zs, n, z, idx, k). nat \<lceil>(z - 1) * 5\<rceil>)")
  show "wf (measure (\<lambda>(zs :: real list, n :: nat, z :: real, idx :: nat list, k :: nat).
              nat \<lceil>(z - 1) * 5\<rceil>))"
    by simp
next
  fix z_scores :: "real list" and n_added :: nat and z_cutoff :: real
    and indices :: "nat list" and k :: nat
  assume a: "length indices \<le> n_added \<and> 1.0 < z_cutoff"
  have "(z_cutoff - 0.2 - 1) * 5 = (z_cutoff - 1) * 5 - 1"
    by (simp add: algebra_simps)
  then have "\<lceil>(z_cutoff - 0.2 - 1) * 5\<rceil> = \<lceil>(z_cutoff - 1) * 5\<rceil> - 1"
    by (simp only: ceiling_diff_one)
  moreover have "0 < \<lceil>(z_cutoff - 1) * 5\<rceil>"
    using a by simp
  ultimately show
    "((z_scores, n_added, z_cutoff - 0.2, np_where_gt z_scores (z_cutoff - 0.2), Suc k),
      (z_scores, n_added, z_cutoff, indices, k))
     \<in> measure (\<lambda>(zs, n, z, idx, k). nat \<lceil>(z - 1) * 5\<rceil>)"
    by simp
qed

declare cutoff_loop.simps [simp del]

text \<open>
  \<^verbatim>\<open>find_outliers(values, top_n, z_cutoff, minval, maxval)\<close>, lines 711-766. The
  \<^verbatim>\<open>metric\<close> argument only feeds a log message.
\<close>

definition added_values :: "real option \<Rightarrow> real option \<Rightarrow> real list" where
  "added_values minval maxval =
     (case minval of None \<Rightarrow> [] | Some m \<Rightarrow> [m]) @ (case maxval of None \<Rightarrow> [] | Some m \<Rightarrow> [m])"

definition find_outliers ::
  "real list \<Rightarrow> int option \<Rightarrow> real \<Rightarrow> real option \<Rightarrow> real option \<Rightarrow> bool list" where
  "find_outliers values top_n z_cutoff minval maxval =
     (if length values = 0 \<or> (case top_n of None \<Rightarrow> False | Some n \<Rightarrow> n \<le> 0)
      then replicate (length values) False
      else
        let added = added_values minval maxval;
            np_values = values @ added;
            mean = np_mean np_values;
            std_dev = np_std np_values
        in if std_dev = 0 then replicate (length np_values) False
           else
             let z_scores = map (\<lambda>v. \<bar>(v - mean) / std_dev\<bar>) np_values;
                 outlier_status0 = replicate (length np_values) False;
                 outlier_status =
                   (case top_n of
                      Some n \<Rightarrow> set_true outlier_status0 (last_n (nat n) (np_argsort z_scores))
                    | None \<Rightarrow>
                        set_true outlier_status0
                          (fst (cutoff_loop z_scores (length added) z_cutoff
                                  (np_where_gt z_scores z_cutoff) 0)))
             in if added \<noteq> []
                then take (length outlier_status - length added) outlier_status
                else outlier_status)"

subsection \<open>violin.py: \<^verbatim>\<open>Dataset.create\<close>, the body of the loop over the metrics\<close>

text \<open>
  A raw value of a table cell: an int, a finite float, a non-finite float (NaN or an
  infinity) or a string.
\<close>

datatype pyval = IntV int | FloatV real | NonFinite | StrV string

fun is_numeric :: "pyval \<Rightarrow> bool" where
  "is_numeric (StrV s) = False"
| "is_numeric v = True"

fun np_isfinite :: "pyval \<Rightarrow> bool" where
  "np_isfinite NonFinite = False"
| "np_isfinite v = True"

text \<open>
  The number that numpy reads from a numeric value. It is only applied to the values
  of a numeric metric after the non-finite ones are dropped.
\<close>

fun to_real :: "pyval \<Rightarrow> real" where
  "to_real (IntV i) = real_of_int i"
| "to_real (FloatV r) = r"
| "to_real v = 0"

text \<open>The three values read from \<^verbatim>\<open>multiqc.config\<close>.\<close>

record violin_config =
  violin_min_threshold_no_points :: int
  violin_min_threshold_outliers :: int
  violin_downsample_after :: "int option"

text \<open>The fields of \<^verbatim>\<open>XAxis\<close> and \<^verbatim>\<open>ViolinColumn\<close> that the loop body computes.\<close>

record XAxis =
  tickvals :: "int list option"
  range :: "(real \<times> real) option"

record ViolinColumn =
  dmin :: "real option"
  dmax :: "real option"
  show_points :: bool
  show_only_outliers :: bool
  xaxis :: XAxis

text \<open>
  Lines 150-164, for a numeric metric:
  \<^verbatim>\<open>
  xmin = column.dmin; xmax = column.dmax; tickvals = None
  if xmin == xmax == 0:
      xmax = 1; tickvals = [0]
  column.xaxis.tickvals = tickvals
  if xmin is not None and xmax is not None:
      if column.show_points:
          xmin -= (xmax - xmin) * 0.005
          xmax += (xmax - xmin) * 0.005
      column.xaxis.range = [xmin, xmax]
  \<close>
  The second padding line reads the \<open>xmin\<close> that the first one has just lowered.
\<close>

definition calculate_range :: "ViolinColumn \<Rightarrow> ViolinColumn" where
  "calculate_range column =
     (let xmin = dmin column;
          xmax0 = dmax column;
          zero = (xmin = Some 0 \<and> xmax0 = Some 0);
          xmax = (if zero then Some 1 else xmax0);
          tv = (if zero then Some [0] else None);
          ax = (xaxis column)\<lparr>tickvals := tv\<rparr>
      in case (xmin, xmax) of
           (Some lo, Some hi) \<Rightarrow>
             (if show_points column
              then (let lo' = lo - (hi - lo) * 0.005;
                        hi' = hi + (hi - lo') * 0.005
                    in column\<lparr>xaxis := ax\<lparr>range := Some (lo', hi')\<rparr>\<rparr>)
              else column\<lparr>xaxis := ax\<lparr>range := Some (lo, hi)\<rparr>\<rparr>)
         | _ \<Rightarrow> column\<lparr>xaxis := ax\<rparr>)"

text \<open>
  Lines 166-190: the values of the interactive points,
  \<^verbatim>\<open>scatter_value_by_sample\<close>.
\<close>

definition scatter_values ::
  "ViolinColumn \<Rightarrow> bool \<Rightarrow> (string \<times> pyval) list \<Rightarrow> (string \<times> pyval) list" where
  "scatter_values column values_are_numeric value_by_sample =
     (if \<not> show_points column then []
      else if \<not> show_only_outliers column then []
      else if \<not> values_are_numeric then []
      else
        let samples = map fst value_by_sample;
            numeric_values = map snd value_by_sample;
            outlier_statuses =
              find_outliers (map to_real numeric_values) None 2.0 (dmin column) (dmax column)
        in map (\<lambda>idx. (samples ! idx, numeric_values ! idx))
             (filter (\<lambda>idx. outlier_statuses ! idx) [0..<length samples]))"

text \<open>
  Lines 118-192 for one metric with declared bounds \<open>dt_dmin\<close>, \<open>dt_dmax\<close>: the column
  header and the scatter values, or \<open>None\<close> where the source leaves the metric out
  (\<^verbatim>\<open>continue\<close>).
\<close>

definition create_metric ::
  "violin_config \<Rightarrow> real option \<Rightarrow> real option \<Rightarrow> (string \<times> pyval) list
   \<Rightarrow> (ViolinColumn \<times> (string \<times> pyval) list \<times> (string \<times> pyval) list) option" where
  "create_metric cfg dt_dmin dt_dmax value_by_sample0 =
     (let column0 = \<lparr>dmin = dt_dmin, dmax = dt_dmax, show_points = True,
                     show_only_outliers = False,
                     xaxis = \<lparr>tickvals = None, range = None\<rparr>\<rparr>
      in if value_by_sample0 = [] then None
         else
           let values_are_numeric = list_all (\<lambda>(s, v). is_numeric v) value_by_sample0;
               value_by_sample =
                 (if values_are_numeric
                  then filter (\<lambda>(s, v). np_isfinite v) value_by_sample0
                  else value_by_sample0)
           in if values_are_numeric \<and> value_by_sample = [] then None
              else
                let column1 = column0\<lparr>
                      show_points :=
                        int (length value_by_sample) \<le> violin_min_threshold_no_points cfg,
                      show_only_outliers :=
                        int (length value_by_sample) > violin_min_threshold_outliers cfg\<rparr>;
                    column = (if values_are_numeric then calculate_range column1 else column1)
                in Some (column,
                         scatter_values column values_are_numeric value_by_sample,
                         value_by_sample))"

text \<open>
  \<^verbatim>\<open>Dataset.create_figure\<close>, lines 354-358: the samples drawn as interactive points
  over the violin of a metric.
  \<^verbatim>\<open>
  if add_scatter and header.show_points:
      if header.show_only_outliers:
          scatter_values_by_sample = self.scatter_value_by_sample_by_metric[metric]
      else:
          scatter_values_by_sample = violin_values_by_sample
  \<close>
\<close>

definition point_layer ::
  "bool \<Rightarrow> ViolinColumn \<Rightarrow> (string \<times> pyval) list \<Rightarrow> (string \<times> pyval) list
   \<Rightarrow> (string \<times> pyval) list" where
  "point_layer add_scatter header scatter_value_by_sample violin_values_by_sample =
     (if add_scatter \<and> show_points header
      then (if show_only_outliers header then scatter_value_by_sample
            else violin_values_by_sample)
      else [])"

text \<open>
  Lines 194-206, the downsampling of the violin values:
  \<^verbatim>\<open>
  max_violin_points = config.violin_downsample_after
  if max_violin_points is not None and len(violin_value_by_sample) > max_violin_points:
      samples = list(violin_value_by_sample.keys())
      values = list(violin_value_by_sample.values())
      indices = np.argsort(values)
      indices = indices[:: int(math.ceil(len(indices) / max_violin_points))]
      violin_value_by_sample = {samples[idx]: values[idx] for idx in indices}
  \<close>
  The values are compared through \<open>key\<close> (\<^const>\<open>to_real\<close> for a numeric metric). A cap
  of zero divides by zero; a step of zero is refused by the slice; a negative step
  walks the ranks from the last one down. The sample names are the keys of a
  \<^verbatim>\<open>dict\<close>, so they are distinct, and the new \<^verbatim>\<open>dict\<close> has one entry for each index
  taken.
\<close>

definition downsample ::
  "('v \<Rightarrow> 'k::linorder) \<Rightarrow> int option \<Rightarrow> ('s \<times> 'v) list \<Rightarrow> error + ('s \<times> 'v) list" where
  "downsample key max_violin_points violin_value_by_sample =
     (case max_violin_points of
        None \<Rightarrow> Inr violin_value_by_sample
      | Some cap \<Rightarrow>
          if int (length violin_value_by_sample) > cap then
            (if cap = 0 then Inl ZeroDivisionError
             else
               let samples = map fst violin_value_by_sample;
                   values = map snd violin_value_by_sample;
                   indices = np_argsort (map key values);
                   step = \<lceil>real (length indices) / real_of_int cap\<rceil>;
                   picked = (if step > 0 then Inr (slice_step indices (nat step))
                             else if step < 0 then Inr (slice_step (rev indices) (nat (- step)))
                             else Inl ValueError)
               in case picked of
                    Inl e \<Rightarrow> Inl e
                  | Inr idxs \<Rightarrow> Inr (map (\<lambda>idx. (samples ! idx, values ! idx)) idxs))
          else Inr violin_value_by_sample)"

subsection \<open>bar.py: \<^verbatim>\<open>Dataset.create\<close>\<close>

text \<open>A bar value: a float that may be NaN.\<close>

datatype pyfloat = NaN | Num real

text \<open>
  An input category (\<^verbatim>\<open>CatDataDict\<close>): the source tests for the keys \<^verbatim>\<open>name\<close> and
  \<^verbatim>\<open>data_pct\<close>, so these two may be absent.
\<close>

record CatDataDict =
  in_name :: "string option"
  in_color :: string
  in_data :: "pyfloat list"
  in_data_pct :: "pyfloat list option"

record Category =
  name :: string
  color :: string
  data :: "pyfloat list"
  data_pct :: "pyfloat list"

record Dataset =
  cats :: "Category list"
  samples :: "string list"

text \<open>
  The body of the loop over the input categories, lines 99-123. \<open>split_name\<close> stands for
  \<^verbatim>\<open>"<br>".join(split_long_string(...))\<close> and \<open>html_color\<close> for the colour conversion
  through \<^verbatim>\<open>spectra.html\<close>, which refuses some strings.
\<close>

definition fix_cat ::
  "(string \<Rightarrow> string) \<Rightarrow> (string \<Rightarrow> string option) \<Rightarrow> string list \<Rightarrow> CatDataDict
   \<Rightarrow> error + Category" where
  "fix_cat split_name html_color samples' input_cat =
     (case in_name input_cat of
        None \<Rightarrow> Inl ValueError
      | Some nm \<Rightarrow>
          (case html_color (in_color input_cat) of
             None \<Rightarrow> Inl ValueError
           | Some color_str \<Rightarrow>
               let cat = \<lparr>name = split_name nm, color = color_str,
                          data = rev (in_data input_cat),
                          data_pct = (case in_data_pct input_cat of
                                        Some p \<Rightarrow> rev p | None \<Rightarrow> [])\<rparr>
               in if length samples' \<noteq> length (data cat) then Inl AssertionError
                  else if data_pct cat \<noteq> [] \<and> length samples' \<noteq> length (data_pct cat)
                  then Inl AssertionError
                  else Inr cat))"

fun fix_cats ::
  "(string \<Rightarrow> string) \<Rightarrow> (string \<Rightarrow> string option) \<Rightarrow> string list \<Rightarrow> CatDataDict list
   \<Rightarrow> error + Category list" where
  "fix_cats split_name html_color samples' [] = Inr []"
| "fix_cats split_name html_color samples' (input_cat # rest) =
     (case fix_cat split_name html_color samples' input_cat of
        Inl e \<Rightarrow> Inl e
      | Inr cat \<Rightarrow>
          (case fix_cats split_name html_color samples' rest of
             Inl e \<Rightarrow> Inl e
           | Inr fixed_cats \<Rightarrow> Inr (cat # fixed_cats)))"

text \<open>\<^verbatim>\<open>Dataset.create(dataset, cats, samples)\<close>, lines 91-131.\<close>

definition Dataset_create ::
  "(string \<Rightarrow> string) \<Rightarrow> (string \<Rightarrow> string option) \<Rightarrow> CatDataDict list \<Rightarrow> string list
   \<Rightarrow> error + Dataset" where
  "Dataset_create split_name html_color cats_in samples_in =
     (let samples' = rev samples_in
      in case fix_cats split_name html_color samples' cats_in of
           Inl e \<Rightarrow> Inl e
         | Inr fixed_cats \<Rightarrow> Inr \<lparr>cats = fixed_cats, samples = samples'\<rparr>)"

subsection \<open>bar.py: \<^verbatim>\<open>BarPlot.create\<close>, the passes over the category data\<close>

text \<open>
  Lines 358-362:
  \<^verbatim>\<open>
  for cat in dataset.cats:
      if len(cat.data) < len(dataset.samples):
          cat.data.extend([0] * (len(dataset.samples) - len(cat.data)))
  \<close>
\<close>

definition expand_cat :: "nat \<Rightarrow> Category \<Rightarrow> Category" where
  "expand_cat n_samples cat =
     (if length (data cat) < n_samples
      then cat\<lparr>data := data cat @ replicate (n_samples - length (data cat)) (Num 0)\<rparr>
      else cat)"

definition expand_with_zeroes :: "Dataset \<Rightarrow> Dataset" where
  "expand_with_zeroes dataset =
     dataset\<lparr>cats := map (expand_cat (length (samples dataset))) (cats dataset)\<rparr>"

text \<open>
  Lines 368-372, the totals:
  \<^verbatim>\<open>
  sums = [0 for _ in dataset.cats[0].data]
  for cat in dataset.cats:
      for sample_idx, val in enumerate(cat.data):
          if not math.isnan(val):
              sums[sample_idx] += abs(val)
  \<close>
  The list \<^verbatim>\<open>sums\<close> is called \<open>totals\<close> here. Writing \<^verbatim>\<open>sums[sample_idx]\<close> beyond its
  length raises \<open>IndexError\<close>.
\<close>

fun add_abs :: "real list \<Rightarrow> (nat \<times> pyfloat) list \<Rightarrow> error + real list" where
  "add_abs totals [] = Inr totals"
| "add_abs totals ((sample_idx, NaN) # rest) = add_abs totals rest"
| "add_abs totals ((sample_idx, Num v) # rest) =
     (if sample_idx < length totals
      then add_abs (totals[sample_idx := totals ! sample_idx + \<bar>v\<bar>]) rest
      else Inl IndexError)"

fun count_totals :: "real list \<Rightarrow> Category list \<Rightarrow> error + real list" where
  "count_totals totals [] = Inr totals"
| "count_totals totals (cat # rest) =
     (case add_abs totals (enumerate 0 (data cat)) of
        Inl e \<Rightarrow> Inl e
      | Inr totals' \<Rightarrow> count_totals totals' rest)"

text \<open>
  Lines 375-383, the percentages of one category:
  \<^verbatim>\<open>
  values = [x for x in cat.data]
  for sample_idx, val in enumerate(values):
      sum_for_sample = sums[sample_idx]
      if sum_for_sample == 0:
          values[sample_idx] = 0
      else:
          values[sample_idx] = float(val + 0.0) / float(sum_for_sample) * 100.0
  cat.data_pct = values
  \<close>
  A NaN value divided by a non-zero total stays NaN.
\<close>

fun percentage :: "pyfloat \<Rightarrow> real \<Rightarrow> pyfloat" where
  "percentage NaN sum_for_sample = NaN"
| "percentage (Num v) sum_for_sample = Num (v / sum_for_sample * 100)"

fun pct_values :: "real list \<Rightarrow> (nat \<times> pyfloat) list \<Rightarrow> error + pyfloat list" where
  "pct_values totals [] = Inr []"
| "pct_values totals ((sample_idx, val) # rest) =
     (if sample_idx < length totals
      then (case pct_values totals rest of
              Inl e \<Rightarrow> Inl e
            | Inr vs \<Rightarrow>
                Inr ((if totals ! sample_idx = 0 then Num 0
                      else percentage val (totals ! sample_idx)) # vs))
      else Inl IndexError)"

fun set_data_pct :: "real list \<Rightarrow> Category list \<Rightarrow> error + Category list" where
  "set_data_pct totals [] = Inr []"
| "set_data_pct totals (cat # rest) =
     (case pct_values totals (enumerate 0 (data cat)) of
        Inl e \<Rightarrow> Inl e
      | Inr vs \<Rightarrow>
          (case set_data_pct totals rest of
             Inl e \<Rightarrow> Inl e
           | Inr cs \<Rightarrow> Inr (cat\<lparr>data_pct := vs\<rparr> # cs)))"

text \<open>Lines 366-383 for one dataset; \<^verbatim>\<open>dataset.cats[0]\<close> raises without categories.\<close>

definition calculate_percentages :: "Dataset \<Rightarrow> error + Dataset" where
  "calculate_percentages dataset =
     (case cats dataset of
        [] \<Rightarrow> Inl IndexError
      | cat0 # _ \<Rightarrow>
          (case count_totals (map (\<lambda>_. 0) (data cat0)) (cats dataset) of
             Inl e \<Rightarrow> Inl e
           | Inr totals \<Rightarrow>
               (case set_data_pct totals (cats dataset) of
                  Inl e \<Rightarrow> Inl e
                | Inr cs \<Rightarrow> Inr (dataset\<lparr>cats := cs\<rparr>))))"

text \<open>
  The words of the specification, to state the percentage pass against: the
  denominator of a sample index is the sum of the absolute values of the entries at
  that index that are not NaN, and the absolute percentages are added up with the
  float addition, in which a NaN summand makes the sum NaN.
\<close>

fun abs_or_zero :: "pyfloat \<Rightarrow> real" where
  "abs_or_zero NaN = 0"
| "abs_or_zero (Num v) = \<bar>v\<bar>"

definition denominator :: "Category list \<Rightarrow> nat \<Rightarrow> real" where
  "denominator cs i = sum_list (map (\<lambda>cat. abs_or_zero (data cat ! i)) cs)"

fun pf_abs :: "pyfloat \<Rightarrow> pyfloat" where
  "pf_abs NaN = NaN"
| "pf_abs (Num v) = Num \<bar>v\<bar>"

fun pf_add :: "pyfloat \<Rightarrow> pyfloat \<Rightarrow> pyfloat" where
  "pf_add (Num a) (Num b) = Num (a + b)"
| "pf_add a b = NaN"

definition abs_pct_sum :: "Category list \<Rightarrow> nat \<Rightarrow> pyfloat" where
  "abs_pct_sum cs i = foldl pf_add (Num 0) (map (\<lambda>cat. pf_abs (data_pct cat ! i)) cs)"

definition abs_pct_sum_not_nan :: "Category list \<Rightarrow> nat \<Rightarrow> real" where
  "abs_pct_sum_not_nan cs i = sum_list (map (\<lambda>cat. abs_or_zero (data_pct cat ! i)) cs)"

subsection \<open>scatter.py: the annotation threshold of \<^verbatim>\<open>Dataset.create_figure\<close>\<close>

definition MAX_ANNOTATIONS :: nat where
  "MAX_ANNOTATIONS = 10"

text \<open>
  \<^verbatim>\<open>np.count_nonzero((x_z_scores > threshold) | (y_z_scores > threshold))\<close>
\<close>

definition count_outliers :: "real list \<Rightarrow> real list \<Rightarrow> real \<Rightarrow> nat" where
  "count_outliers x_z_scores y_z_scores threshold =
     length (filter (\<lambda>(x, y). x > threshold \<or> y > threshold) (zip x_z_scores y_z_scores))"

text \<open>
  The loop of lines 111-118:
  \<^verbatim>\<open>
  threshold = 1.0
  while threshold <= 6.0:
      n_outliers = np.count_nonzero((x_z_scores > threshold) | (y_z_scores > threshold))
      if n_annotated + n_outliers <= MAX_ANNOTATIONS:
          break
      threshold += 0.2
  \<close>
  The last argument counts the executions of the loop body and plays no part in the
  threshold.
\<close>

function threshold_loop ::
  "real list \<Rightarrow> real list \<Rightarrow> nat \<Rightarrow> real \<Rightarrow> nat \<Rightarrow> real \<times> nat" where
  "threshold_loop x_z_scores y_z_scores n_annotated threshold k =
     (if threshold \<le> 6.0
      then (if n_annotated + count_outliers x_z_scores y_z_scores threshold \<le> MAX_ANNOTATIONS
            then (threshold, Suc k)
            else threshold_loop x_z_scores y_z_scores n_annotated (threshold + 0.2) (Suc k))
      else (threshold, k))"
  by pat_completeness auto
termination
proof (relation "measure (\<lambda>(xz, yz, n, t, k). nat (\<lceil>(6 - t) * 5\<rceil> + 1))")
  show "wf (measure (\<lambda>(xz :: real list, yz :: real list, n :: nat, t :: real, k :: nat).
              nat (\<lceil>(6 - t) * 5\<rceil> + 1)))"
    by simp
next
  fix x_z_scores y_z_scores :: "real list" and n_annotated k :: nat and threshold :: real
  assume a: "threshold \<le> 6.0"
  have "(6 - (threshold + 0.2)) * 5 = (6 - threshold) * 5 - 1"
    by (simp add: algebra_simps)
  then have "\<lceil>(6 - (threshold + 0.2)) * 5\<rceil> = \<lceil>(6 - threshold) * 5\<rceil> - 1"
    by (simp only: ceiling_diff_one)
  moreover have "0 \<le> \<lceil>(6 - threshold) * 5\<rceil>"
    using a by simp
  ultimately show
    "((x_z_scores, y_z_scores, n_annotated, threshold + 0.2, Suc k),
      (x_z_scores, y_z_scores, n_annotated, threshold, k))
     \<in> measure (\<lambda>(xz, yz, n, t, k). nat (\<lceil>(6 - t) * 5\<rceil> + 1))"
    by simp
qed

declare threshold_loop.simps [simp del]

text \<open>
  Lines 100-123 for numeric coordinates: which of the points get an annotation. With
  no point at all numpy's standard deviation is NaN, which is not zero, and the loop
  runs over empty arrays.
\<close>

definition z_scores_or_zeros :: "real list \<Rightarrow> real list" where
  "z_scores_or_zeros vs =
     (if np_std vs \<noteq> 0 then map (\<lambda>v. \<bar>(v - np_mean vs) / np_std vs\<bar>) vs
      else map (\<lambda>v. 0) vs)"

definition annotate_outliers :: "real list \<Rightarrow> real list \<Rightarrow> nat \<Rightarrow> bool list" where
  "annotate_outliers x_values y_values n_annotated =
     (if x_values \<noteq> [] \<and> np_std x_values = 0 \<and> np_std y_values = 0
      then (if length x_values = 1 then [True] else replicate (length x_values) False)
      else
        let x_z_scores = z_scores_or_zeros x_values;
            y_z_scores = z_scores_or_zeros y_values;
            threshold = fst (threshold_loop x_z_scores y_z_scores n_annotated 1.0 0)
        in map (\<lambda>(x, y). x > threshold \<or> y > threshold) (zip x_z_scores y_z_scores))"

section \<open>Properties\<close>

subsection \<open>Lengths\<close>

lemma length_set_true: "length (set_true status idxs) = length status"
  unfolding set_true_def by (induction idxs arbitrary: status) auto

lemma length_added_values:
  "length (added_values minval maxval) =
     (case minval of None \<Rightarrow> 0 | Some m \<Rightarrow> 1) + (case maxval of None \<Rightarrow> 0 | Some m \<Rightarrow> 1)"
  by (simp add: added_values_def split: option.splits)

lemma length_find_outliers:
  "length (find_outliers values top_n z_cutoff minval maxval) =
     (if values \<noteq> [] \<and> (\<forall>n. top_n = Some n \<longrightarrow> 0 < n)
         \<and> np_std (values @ added_values minval maxval) = 0
      then length values + length (added_values minval maxval)
      else length values)"
  by (auto simp: find_outliers_def Let_def length_set_true split: option.splits)

subsection \<open>\<^verbatim>\<open>find_outliers\<close>: the early returns\<close>

text \<open>
  Claim C7, as amended. When the value sequence is empty, or \<open>top_n\<close> is given and is at
  most zero, \<^verbatim>\<open>find_outliers\<close> returns an all-false array that has one entry for each
  input value; its length is zero only for the empty sequence.
\<close>

theorem find_outliers_early_return:
  assumes "values = [] \<or> (\<exists>n. top_n = Some n \<and> n \<le> 0)"
  shows "find_outliers values top_n z_cutoff minval maxval = replicate (length values) False
         \<and> (values = [] \<longrightarrow> find_outliers values top_n z_cutoff minval maxval = [])"
  using assms by (auto simp: find_outliers_def)

text \<open>The theorem at two values and \<open>top_n = 0\<close>.\<close>

theorem find_outliers_early_return_witness:
  "([1, 2 :: real] = [] \<or> (\<exists>n. Some (0 :: int) = Some n \<and> n \<le> 0))
   \<and> find_outliers [1, 2] (Some 0) 2.0 None None = [False, False]"
  using find_outliers_early_return [of "[1, 2]" "Some 0" "2.0" None None] by simp

text \<open>
  As first stated, the claim gives the array length zero for every input with
  \<open>top_n \<le> 0\<close>; with two values and \<open>top_n = 0\<close> the array has two entries.
\<close>

theorem find_outliers_top_n_zero_counterexample:
  "length (find_outliers [1, 2] (Some 0) 2.0 None None) \<noteq> 0"
  by (simp add: find_outliers_def)

subsection \<open>\<^verbatim>\<open>find_outliers\<close>: the length of the returned array\<close>

text \<open>
  Claim C1. The returned array should have one entry for each input value on every
  return path. On the path of a zero standard deviation the appended bounds are not
  stripped: for the values \<open>[5, 5]\<close> and the lower bound \<open>5\<close> the array has three
  entries. (\<open>length_find_outliers\<close> above gives the length on every path.)
\<close>

theorem find_outliers_zero_std_keeps_sentinels:
  "find_outliers [5, 5] None 2.0 (Some 5) None = [False, False, False]
   \<and> length (find_outliers [5, 5] None 2.0 (Some 5) None) \<noteq> length [5, 5 :: real]"
  by (simp add: find_outliers_def added_values_def np_std_def np_mean_def)

subsection \<open>The two threshold searches stop after a bounded number of steps\<close>







subsection \<open>The violin column of one metric\<close>

lemma create_metric_Some:
  assumes "create_metric cfg dt_dmin dt_dmax vbs0 = Some (column, scatter, vbs)"
  shows "vbs0 \<noteq> [] \<and> vbs \<noteq> []
    \<and> vbs = (if list_all (\<lambda>(s, v). is_numeric v) vbs0
             then filter (\<lambda>(s, v). np_isfinite v) vbs0 else vbs0)
    \<and> show_points column = (int (length vbs) \<le> violin_min_threshold_no_points cfg)
    \<and> show_only_outliers column = (int (length vbs) > violin_min_threshold_outliers cfg)
    \<and> dmin column = dt_dmin \<and> dmax column = dt_dmax
    \<and> scatter = scatter_values column (list_all (\<lambda>(s, v). is_numeric v) vbs0) vbs"
  using assms
  by (auto simp: create_metric_def Let_def calculate_range_def split: if_splits option.splits)

lemma calculate_range_zero:
  assumes "dmin column = Some 0" "dmax column = Some 0"
  shows "tickvals (xaxis (calculate_range column)) = Some [0]
    \<and> range (xaxis (calculate_range column)) =
         Some (if show_points column then (- 0.005, 1.005025) else (0, 1))"
  using assms by (simp add: calculate_range_def Let_def)

lemma calculate_range_padded:
  assumes "dmin column = Some lo" "dmax column = Some hi" "show_points column"
    "\<not> (lo = 0 \<and> hi = 0)"
  shows "range (xaxis (calculate_range column)) =
           Some (lo - 0.005 * (hi - lo), hi + 0.005025 * (hi - lo))"
proof -
  have "hi + (hi - (lo - (hi - lo) * 0.005)) * 0.005 = hi + 0.005025 * (hi - lo)"
    by (simp add: field_simps)
  moreover have "lo - (hi - lo) * 0.005 = lo - 0.005 * (hi - lo)"
    by (simp add: field_simps)
  ultimately show ?thesis
    using assms by (auto simp add: calculate_range_def Let_def)
qed

text \<open>
  Claim C5. For a numeric metric that stays in the dataset and whose declared bounds
  are both zero, the axis has the single tick position \<open>0\<close> and a range whose upper end
  is strictly above its lower end: the range is \<open>0..1\<close>, and when points are shown it is
  the range \<open>0..1\<close> with the padding of the source applied to it.
\<close>

theorem zero_range_is_remapped:
  assumes "create_metric cfg (Some 0) (Some 0) value_by_sample = Some (column, scatter, violin)"
    and "list_all (\<lambda>(s, v). is_numeric v) value_by_sample"
  shows "tickvals (xaxis column) = Some [0]
    \<and> (\<exists>xmin xmax. range (xaxis column) = Some (xmin, xmax) \<and> xmin < xmax
         \<and> (if show_points column
             then xmin = 0 - (1 - 0) * 0.005 \<and> xmax = 1 + (1 - xmin) * 0.005
             else xmin = 0 \<and> xmax = 1))"
  using assms
  by (auto simp: create_metric_def Let_def calculate_range_def split: if_splits)

text \<open>The theorem at one sample of value zero, with the default thresholds.\<close>

theorem zero_range_is_remapped_witness:
  "create_metric \<lparr>violin_min_threshold_no_points = 1000, violin_min_threshold_outliers = 100,
       violin_downsample_after = Some 2000\<rparr> (Some 0) (Some 0) [(''s1'', IntV 0)]
     = Some (\<lparr>dmin = Some 0, dmax = Some 0, show_points = True, show_only_outliers = False,
              xaxis = \<lparr>tickvals = Some [0], range = Some (- 0.005, 1.005025)\<rparr>\<rparr>,
             [], [(''s1'', IntV 0)])
   \<and> list_all (\<lambda>(s, v). is_numeric v) [(''s1'', IntV 0)]
   \<and> tickvals \<lparr>tickvals = Some [0], range = Some (- 0.005, 1.005025 :: real)\<rparr> = Some [0]
   \<and> (- 0.005 :: real) < 1.005025"
proof -
  have c: "create_metric \<lparr>violin_min_threshold_no_points = 1000,
       violin_min_threshold_outliers = 100, violin_downsample_after = Some 2000\<rparr>
       (Some 0) (Some 0) [(''s1'', IntV 0)]
     = Some (\<lparr>dmin = Some 0, dmax = Some 0, show_points = True, show_only_outliers = False,
              xaxis = \<lparr>tickvals = Some [0], range = Some (- 0.005, 1.005025)\<rparr>\<rparr>,
             [], [(''s1'', IntV 0)])"
    by (simp add: create_metric_def calculate_range_def scatter_values_def)
  have n: "list_all (\<lambda>(s, v). is_numeric v) [(''s1'', IntV 0)]"
    by simp
  show ?thesis
    using zero_range_is_remapped [OF c n] c n by simp
qed

text \<open>
  Claim C6. With both bounds declared and the points shown, the range should be
  \<open>[dmin - 0.005 * span, dmax + 0.005 * span]\<close>. The source lowers \<open>xmin\<close> first and
  then computes the upper padding from the lowered \<open>xmin\<close>, so the upper end is
  \<open>dmax + 0.005025 * span\<close> (\<open>calculate_range_padded\<close> above): for the bounds \<open>0\<close> and
  \<open>100\<close> the range is \<open>[-0.5, 100.5025]\<close>, not \<open>[-0.5, 100.5]\<close>.
\<close>

theorem padding_reads_lowered_xmin:
  "create_metric \<lparr>violin_min_threshold_no_points = 1000, violin_min_threshold_outliers = 100,
       violin_downsample_after = Some 2000\<rparr> (Some 0) (Some 100) [(''s1'', IntV 1)]
     = Some (\<lparr>dmin = Some 0, dmax = Some 100, show_points = True, show_only_outliers = False,
              xaxis = \<lparr>tickvals = None, range = Some (- 0.5, 100.5025)\<rparr>\<rparr>,
             [], [(''s1'', IntV 1)])
   \<and> (100.5025 :: real) \<noteq> 100 + 0.005 * (100 - 0)"
  by (simp add: create_metric_def calculate_range_def scatter_values_def)

subsection \<open>The interactive points of a large metric\<close>

lemma nth_filter_index:
  "map (\<lambda>idx. (map fst xs ! idx, map snd xs ! idx)) (filter P [0..<length xs])
   = map (\<lambda>idx. xs ! idx) (filter P [0..<length xs])"
  by (rule map_cong) auto

text \<open>
  Claim C4, as amended. For a metric whose current size (after the non-finite values
  are dropped) exceeds \<open>violin_min_threshold_outliers\<close>: when the size is at most
  \<open>violin_min_threshold_no_points\<close> and all values are numeric, the interactive points
  are exactly the samples that \<^verbatim>\<open>find_outliers\<close> flags, run with the declared bounds
  of the metric; in every other case (a non-numeric value, or a size above
  \<open>violin_min_threshold_no_points\<close>) the metric has no interactive points.
\<close>

theorem outliers_only_point_layer:
  assumes "create_metric cfg dt_dmin dt_dmax value_by_sample0
             = Some (column, scatter, value_by_sample)"
    and "int (length value_by_sample) > violin_min_threshold_outliers cfg"
  shows "point_layer True column scatter violin =
     (if int (length value_by_sample) \<le> violin_min_threshold_no_points cfg
         \<and> list_all (\<lambda>(s, v). is_numeric v) value_by_sample0
      then map (\<lambda>idx. value_by_sample ! idx)
             (filter (\<lambda>idx. find_outliers (map to_real (map snd value_by_sample)) None 2.0
                               dt_dmin dt_dmax ! idx)
                [0..<length value_by_sample])
      else [])"
proof -
  note f = create_metric_Some [OF assms(1)]
  show ?thesis
    using f assms(2)
    by (simp add: point_layer_def scatter_values_def Let_def nth_filter_index)
qed

lemma std_example: "np_std [0, 0, 0, 0, 5] = 2"
  by (simp add: np_std_def np_mean_def)

lemma find_outliers_example:
  "find_outliers [0, 0, 0, 0, 5] None 2 None None = [False, False, False, False, True]"
  unfolding find_outliers_def
  apply (simp add: std_example added_values_def Let_def)
  apply (simp add: np_mean_def np_where_gt_def cutoff_loop.simps set_true_def)
  done

text \<open>The theorem at five samples, of which the last one is flagged.\<close>

theorem outliers_only_point_layer_witness:
  "create_metric \<lparr>violin_min_threshold_no_points = 10, violin_min_threshold_outliers = 2,
       violin_downsample_after = None\<rparr> None None
       [(''s1'', IntV 0), (''s2'', IntV 0), (''s3'', IntV 0), (''s4'', IntV 0), (''s5'', IntV 5)]
     = Some (\<lparr>dmin = None, dmax = None, show_points = True, show_only_outliers = True,
              xaxis = \<lparr>tickvals = None, range = None\<rparr>\<rparr>,
             [(''s5'', IntV 5)],
             [(''s1'', IntV 0), (''s2'', IntV 0), (''s3'', IntV 0), (''s4'', IntV 0), (''s5'', IntV 5)])
   \<and> point_layer True
         \<lparr>dmin = None, dmax = None, show_points = True, show_only_outliers = True,
              xaxis = \<lparr>tickvals = None, range = None\<rparr>\<rparr> [(''s5'', IntV 5)] []
       = [(''s5'', IntV 5)]"
proof -
  have c: "create_metric \<lparr>violin_min_threshold_no_points = 10,
       violin_min_threshold_outliers = 2, violin_downsample_after = None\<rparr> None None
       [(''s1'', IntV 0), (''s2'', IntV 0), (''s3'', IntV 0), (''s4'', IntV 0), (''s5'', IntV 5)]
     = Some (\<lparr>dmin = None, dmax = None, show_points = True, show_only_outliers = True,
              xaxis = \<lparr>tickvals = None, range = None\<rparr>\<rparr>,
             [(''s5'', IntV 5)],
             [(''s1'', IntV 0), (''s2'', IntV 0), (''s3'', IntV 0), (''s4'', IntV 0), (''s5'', IntV 5)])"
    by (simp add: create_metric_def calculate_range_def scatter_values_def find_outliers_example)
  show ?thesis
    using outliers_only_point_layer [OF c, of "[]"] c
    by (simp add: find_outliers_example)
qed

text \<open>
  As first stated, the claim gives every numeric metric above the outliers threshold
  the flagged samples as points. With the thresholds \<open>3\<close> (no points) and \<open>2\<close>
  (outliers) a numeric metric of five samples is above both: its last sample is
  flagged, and it has no interactive points.
\<close>

theorem no_point_layer_above_no_points_threshold_counterexample:
  "create_metric \<lparr>violin_min_threshold_no_points = 3, violin_min_threshold_outliers = 2,
       violin_downsample_after = None\<rparr> None None
       [(''s1'', IntV 0), (''s2'', IntV 0), (''s3'', IntV 0), (''s4'', IntV 0), (''s5'', IntV 5)]
     = Some (\<lparr>dmin = None, dmax = None, show_points = False, show_only_outliers = True,
              xaxis = \<lparr>tickvals = None, range = None\<rparr>\<rparr>,
             [],
             [(''s1'', IntV 0), (''s2'', IntV 0), (''s3'', IntV 0), (''s4'', IntV 0), (''s5'', IntV 5)])
   \<and> point_layer True
         \<lparr>dmin = None, dmax = None, show_points = False, show_only_outliers = True,
              xaxis = \<lparr>tickvals = None, range = None\<rparr>\<rparr> []
         [(''s1'', IntV 0), (''s2'', IntV 0), (''s3'', IntV 0), (''s4'', IntV 0), (''s5'', IntV 5)]
       = []
   \<and> find_outliers [0, 0, 0, 0, 5] None 2.0 None None = [False, False, False, False, True]"
  by (simp add: create_metric_def calculate_range_def scatter_values_def point_layer_def find_outliers_example)

subsection \<open>Downsampling the violin values\<close>

lemma length_np_argsort: "length (np_argsort xs) = length xs"
  by (simp add: np_argsort_def)

lemma set_np_argsort: "set (np_argsort xs) = {0..<length xs}"
  by (simp add: np_argsort_def)

lemma distinct_np_argsort: "distinct (np_argsort xs)"
  by (simp add: np_argsort_def)

lemma map_nth_np_argsort: "map (\<lambda>i. xs ! i) (np_argsort xs) = sort xs"
proof (rule properties_for_sort [symmetric])
  have "mset (map (\<lambda>i. xs ! i) (np_argsort xs)) = mset (map (\<lambda>i. xs ! i) [0..<length xs])"
    by (simp add: np_argsort_def)
  then show "mset (map (\<lambda>i. xs ! i) (np_argsort xs)) = mset xs"
    by (simp add: map_nth)
  show "sorted (map (\<lambda>i. xs ! i) (np_argsort xs))"
    by (simp add: np_argsort_def)
qed

lemma slice_index_in_range:
  assumes "0 < s" "i < (n + s - 1) div s"
  shows "i * s < (n :: nat)"
proof -
  have "Suc i \<le> (n + s - 1) div s" using assms(2) by simp
  then have "Suc i * s \<le> (n + s - 1) div s * s" by (rule mult_le_mono1)
  also have "\<dots> \<le> n + s - 1" by simp
  finally show ?thesis using assms(1) by simp
qed

lemma length_slice_step: "length (slice_step xs s) = (length xs + s - 1) div s"
  by (simp add: slice_step_def)

lemma map_slice_step:
  assumes "0 < s"
  shows "map f (slice_step xs s) = slice_step (map f xs) s"
  unfolding slice_step_def using assms
  by (auto simp: slice_index_in_range)

lemma set_slice_step:
  assumes "0 < s"
  shows "set (slice_step xs s) \<subseteq> set xs"
  unfolding slice_step_def using assms
  by (auto simp: slice_index_in_range)

lemma distinct_slice_step:
  assumes "0 < s" "distinct xs"
  shows "distinct (slice_step xs s)"
proof -
  have "inj_on (\<lambda>i. xs ! (i * s)) (set [0..<(length xs + s - 1) div s])"
  proof (rule inj_onI)
    fix i j
    assume i: "i \<in> set [0..<(length xs + s - 1) div s]"
      and j: "j \<in> set [0..<(length xs + s - 1) div s]"
      and e: "xs ! (i * s) = xs ! (j * s)"
    have "i * s < length xs" "j * s < length xs"
      using i j assms(1) by (auto intro: slice_index_in_range)
    then have "i * s = j * s"
      using e assms(2) by (simp add: nth_eq_iff_index_eq)
    then show "i = j" using assms(1) by simp
  qed
  then show ?thesis
    unfolding slice_step_def by (simp add: distinct_map)
qed

lemma sorted_slice_step:
  fixes ys :: "('k::linorder) list"
  assumes "0 < s" "sorted ys"
  shows "sorted (slice_step ys s)"
proof -
  have "slice_step ys s ! i \<le> slice_step ys s ! j"
    if "i \<le> j" "j < length (slice_step ys s)" for i j
  proof -
    have j: "j < (length ys + s - 1) div s" using that(2) by (simp add: slice_step_def)
    then have i: "i < (length ys + s - 1) div s" using that(1) by simp
    have "ys ! (i * s) \<le> ys ! (j * s)"
      using assms(2) that(1) slice_index_in_range [OF assms(1) j]
      by (intro sorted_nth_mono) auto
    then show ?thesis using i j by (simp add: slice_step_def)
  qed
  then show ?thesis by (auto simp: sorted_iff_nth_mono)
qed

lemma slice_step_length_le:
  assumes "0 < s" "0 < c" "n \<le> s * c"
  shows "(n + s - 1) div s \<le> (c :: nat)"
proof -
  have "n + s - 1 < (c + 1) * s" using assms by (simp add: algebra_simps)
  then have "(n + s - 1) div s < c + 1" by (rule less_mult_imp_div_less)
  then show ?thesis by simp
qed

lemma Min_in_slice_step:
  fixes ys :: "('k::linorder) list"
  assumes "0 < s" "sorted ys" "ys \<noteq> []"
  shows "Min (set ys) \<in> set (slice_step ys s)"
proof -
  have "0 < length ys" using assms(3) by simp
  then have "s \<le> length ys + s - 1" by arith
  then have len: "0 < (length ys + s - 1) div s"
    using assms(1) by (simp add: div_greater_zero_iff)
  have "ys ! 0 \<le> y" if y: "y \<in> set ys" for y
  proof -
    obtain j where "j < length ys" "y = ys ! j" using y by (auto simp: in_set_conv_nth)
    then show ?thesis using sorted_nth_mono [OF assms(2), of 0 j] by simp
  qed
  then have "Min (set ys) = ys ! 0"
    using assms(3) by (intro Min_eqI) auto
  moreover have "slice_step ys s ! 0 = ys ! 0"
    using len by (simp add: slice_step_def)
  moreover have "0 < length (slice_step ys s)"
    using len by (simp add: slice_step_def)
  ultimately show ?thesis by (metis nth_mem)
qed

lemma Max_in_slice_step:
  fixes ys :: "('k::linorder) list"
  assumes "0 < s" "sorted ys" "ys \<noteq> []" "(length ys - 1) mod s = 0"
  shows "Max (set ys) \<in> set (slice_step ys s)"
proof -
  define n where "n = length ys"
  define q where "q = (n - 1) div s"
  have n: "0 < n" using assms(3) by (simp add: n_def)
  have "s dvd n - 1"
    using assms(4) unfolding n_def by (simp add: mod_eq_0_iff_dvd)
  then have qs: "q * s = n - 1"
    unfolding q_def by simp
  have "n + s - 1 = (n - 1) + s" using n by arith
  then have "(n + s - 1) div s = ((n - 1) + s) div s" by (rule arg_cong)
  also have "\<dots> = q + 1"
    unfolding q_def using assms(1) by (simp only: div_add_self2)
  finally have q: "q < (length ys + s - 1) div s" by (simp add: n_def)
  have "y \<le> ys ! (n - 1)" if y: "y \<in> set ys" for y
  proof -
    obtain j where "j < length ys" "y = ys ! j" using y by (auto simp: in_set_conv_nth)
    then show ?thesis using sorted_nth_mono [OF assms(2), of j "n - 1"] n by (simp add: n_def)
  qed
  moreover have "ys ! (n - 1) \<in> set ys" using n by (simp add: n_def)
  ultimately have "Max (set ys) = ys ! (n - 1)"
    by (intro Max_eqI) auto
  moreover have "slice_step ys s ! q = ys ! (n - 1)"
    using q qs by (simp add: slice_step_def)
  moreover have "q < length (slice_step ys s)"
    using q by (simp add: slice_step_def)
  ultimately show ?thesis by (metis nth_mem)
qed


lemma downsample_unchanged:
  "downsample key None vbs = Inr vbs"
  "int (length vbs) \<le> cap \<Longrightarrow> downsample key (Some cap) vbs = Inr vbs"
  by (simp_all add: downsample_def)

lemma ceil_step:
  assumes "0 < cap" "cap < int n"
  shows "0 < \<lceil>real n / real_of_int cap\<rceil>"
    and "n \<le> nat \<lceil>real n / real_of_int cap\<rceil> * nat cap"
proof -
  have "0 < real n / real_of_int cap" using assms by simp
  then show pos: "0 < \<lceil>real n / real_of_int cap\<rceil>" by simp
  have "real n / real_of_int cap \<le> real_of_int \<lceil>real n / real_of_int cap\<rceil>"
    by (rule le_of_int_ceiling)
  moreover have "0 < real_of_int cap" using assms(1) by simp
  ultimately have "real n \<le> real_of_int \<lceil>real n / real_of_int cap\<rceil> * real_of_int cap"
    by (simp only: pos_divide_le_eq)
  then have "real_of_int (int n) \<le> real_of_int (\<lceil>real n / real_of_int cap\<rceil> * cap)"
    by simp
  then have "int n \<le> \<lceil>real n / real_of_int cap\<rceil> * cap"
    by (simp only: of_int_le_iff)
  also have "\<dots> = int (nat \<lceil>real n / real_of_int cap\<rceil> * nat cap)"
    using pos assms(1) by simp
  finally show "n \<le> nat \<lceil>real n / real_of_int cap\<rceil> * nat cap"
    by (simp only: of_nat_le_iff)
qed

lemma downsample_picks:
  fixes key :: "'v \<Rightarrow> 'k::linorder"
  assumes "0 < cap" "cap < int (length vbs)"
  shows "downsample key (Some cap) vbs =
           Inr (map (\<lambda>idx. vbs ! idx)
                  (slice_step (np_argsort (map key (map snd vbs)))
                     (nat \<lceil>real (length vbs) / real_of_int cap\<rceil>)))"
proof -
  define s where "s = nat \<lceil>real (length vbs) / real_of_int cap\<rceil>"
  define picked where "picked = slice_step (np_argsort (map key (map snd vbs))) s"
  have pos: "0 < \<lceil>real (length vbs) / real_of_int cap\<rceil>"
    using ceil_step(1) [OF assms] .
  then have s: "0 < s" by (simp add: s_def)
  have "set picked \<subseteq> {0..<length vbs}"
    using set_slice_step [OF s, of "np_argsort (map key (map snd vbs))"]
    by (simp add: picked_def set_np_argsort)
  then have "map (\<lambda>idx. (map fst vbs ! idx, map snd vbs ! idx)) picked
             = map (\<lambda>idx. vbs ! idx) picked"
    by (intro map_cong) auto
  then show ?thesis
    using assms pos
    by (simp add: downsample_def Let_def length_np_argsort picked_def s_def)
qed

text \<open>
  Claim C2, as amended. Without a cap, or with at most \<open>cap\<close> samples, the downsampling
  returns its input. With more than \<open>cap > 0\<close> samples it returns entries of the input
  whose values are every \<open>ceil(n / cap)\<close>-th value of the ascending order, starting
  with the smallest and kept in ascending order; these are at most \<open>cap\<close> entries, under distinct sample names when
  the input has distinct sample names. The minimum of the input is among them. The
  maximum is among them when \<open>ceil(n / cap)\<close> divides \<open>n - 1\<close>.
\<close>

theorem downsample_identity_or_stride:
  fixes key :: "'v \<Rightarrow> 'k::linorder"
  shows "downsample key None vbs = Inr vbs
    \<and> (int (length vbs) \<le> cap \<longrightarrow> downsample key (Some cap) vbs = Inr vbs)
    \<and> (0 < cap \<and> cap < int (length vbs) \<longrightarrow>
         (\<exists>out. downsample key (Some cap) vbs = Inr out
            \<and> map (key \<circ> snd) out
                = slice_step (sort (map (key \<circ> snd) vbs))
                    (nat \<lceil>real (length vbs) / real_of_int cap\<rceil>)
            \<and> sorted (map (key \<circ> snd) out)
            \<and> int (length out) \<le> cap
            \<and> set out \<subseteq> set vbs
            \<and> (distinct (map fst vbs) \<longrightarrow> distinct (map fst out))
            \<and> Min (set (map (key \<circ> snd) vbs)) \<in> set (map (key \<circ> snd) out)
            \<and> ((length vbs - 1) mod nat \<lceil>real (length vbs) / real_of_int cap\<rceil> = 0
                 \<longrightarrow> Max (set (map (key \<circ> snd) vbs)) \<in> set (map (key \<circ> snd) out))))"
proof (intro conjI impI)
  show "downsample key None vbs = Inr vbs" by (rule downsample_unchanged)
  show "downsample key (Some cap) vbs = Inr vbs" if "int (length vbs) \<le> cap"
    using that by (rule downsample_unchanged)
next
  assume a: "0 < cap \<and> cap < int (length vbs)"
  define n where "n = length vbs"
  define s where "s = nat \<lceil>real (length vbs) / real_of_int cap\<rceil>"
  define ks where "ks = map (key \<circ> snd) vbs"
  define picked where "picked = slice_step (np_argsort ks) s"
  define out where "out = map (\<lambda>idx. vbs ! idx) picked"
  have s: "0 < s" using ceil_step(1) [of cap "length vbs"] a by (simp add: s_def)
  have ns: "length vbs \<le> s * nat cap"
    using ceil_step(2) [of cap "length vbs"] a by (simp add: s_def)
  have ne: "vbs \<noteq> []" using a by auto
  have res: "downsample key (Some cap) vbs = Inr out"
    using downsample_picks [of cap vbs key] a
    by (simp add: out_def picked_def s_def ks_def)
  have sub: "set picked \<subseteq> {0..<length vbs}"
    using set_slice_step [OF s, of "np_argsort ks"]
    by (simp add: picked_def set_np_argsort ks_def)
  have "map (key \<circ> snd) out = map (\<lambda>idx. ks ! idx) picked"
    unfolding out_def ks_def using sub by (auto simp: subset_iff)
  also have "\<dots> = slice_step (map (\<lambda>idx. ks ! idx) (np_argsort ks)) s"
    unfolding picked_def by (rule map_slice_step [OF s])
  also have "\<dots> = slice_step (sort ks) s"
    by (simp only: map_nth_np_argsort)
  finally have keys: "map (key \<circ> snd) out = slice_step (sort ks) s" .
  have asc: "sorted (map (key \<circ> snd) out)"
    unfolding keys by (rule sorted_slice_step [OF s]) simp
  have "length out = (length vbs + s - 1) div s"
    by (simp add: out_def picked_def length_slice_step length_np_argsort ks_def)
  also have "\<dots> \<le> nat cap"
    using s a ns by (intro slice_step_length_le) auto
  finally have "length out \<le> nat cap" .
  then have len: "int (length out) \<le> cap" using a by arith
  have mem: "set out \<subseteq> set vbs"
    unfolding out_def using sub by (auto simp: subset_iff)
  have dist: "distinct (map fst out)" if d: "distinct (map fst vbs)"
  proof -
    have dp: "distinct picked"
      unfolding picked_def by (rule distinct_slice_step [OF s distinct_np_argsort])
    have "map fst out = map (\<lambda>idx. map fst vbs ! idx) picked"
      unfolding out_def using sub by (auto simp: subset_iff)
    moreover have "inj_on (\<lambda>idx. map fst vbs ! idx) (set picked)"
    proof (rule inj_onI)
      fix i j assume "i \<in> set picked" "j \<in> set picked" "map fst vbs ! i = map fst vbs ! j"
      then show "i = j"
        using sub d nth_eq_iff_index_eq [of "map fst vbs" i j] by (auto simp: subset_iff)
    qed
    ultimately show ?thesis using dp by (simp add: distinct_map)
  qed
  have kne: "ks \<noteq> []" using ne by (simp add: ks_def)
  have srt: "sorted (sort ks)" "sort ks \<noteq> []" "set (sort ks) = set ks"
    "length (sort ks) = length vbs"
  proof -
    show "sort ks \<noteq> []" using kne by (metis length_0_conv length_sort)
  qed (simp_all add: ks_def)
  have mn: "Min (set ks) \<in> set (map (key \<circ> snd) out)"
    using Min_in_slice_step [OF s srt(1,2)] by (simp only: keys srt(3))
  have mx: "Max (set ks) \<in> set (map (key \<circ> snd) out)" if "(length vbs - 1) mod s = 0"
    using Max_in_slice_step [OF s srt(1,2)] that by (simp only: keys srt(3,4))
  show "\<exists>out. downsample key (Some cap) vbs = Inr out
            \<and> map (key \<circ> snd) out
                = slice_step (sort (map (key \<circ> snd) vbs))
                    (nat \<lceil>real (length vbs) / real_of_int cap\<rceil>)
            \<and> sorted (map (key \<circ> snd) out)
            \<and> int (length out) \<le> cap
            \<and> set out \<subseteq> set vbs
            \<and> (distinct (map fst vbs) \<longrightarrow> distinct (map fst out))
            \<and> Min (set (map (key \<circ> snd) vbs)) \<in> set (map (key \<circ> snd) out)
            \<and> ((length vbs - 1) mod nat \<lceil>real (length vbs) / real_of_int cap\<rceil> = 0
                 \<longrightarrow> Max (set (map (key \<circ> snd) vbs)) \<in> set (map (key \<circ> snd) out))"
    using res keys asc len mem dist mn mx unfolding ks_def s_def
    by (intro exI [of _ out] conjI impI; (assumption | blast))
qed

lemma downsample_example:
  "downsample to_real (Some 2) [(''a'', IntV 3), (''b'', IntV 1), (''c'', IntV 2)]
     = Inr [(''b'', IntV 1), (''a'', IntV 3)]"
  by (simp add: downsample_def np_argsort_def slice_step_def)

text \<open>The theorem at three samples, with the caps two and three.\<close>

theorem downsample_identity_or_stride_witness:
  "0 < (2 :: int) \<and> 2 < int (length [(''a'', IntV 3), (''b'', IntV 1), (''c'', IntV 2)])
   \<and> downsample to_real (Some 2) [(''a'', IntV 3), (''b'', IntV 1), (''c'', IntV 2)]
       = Inr [(''b'', IntV 1), (''a'', IntV 3)]
   \<and> int (length [(''b'', IntV 1), (''a'', IntV 3)]) \<le> 2
   \<and> downsample to_real (Some 3) [(''a'', IntV 3), (''b'', IntV 1), (''c'', IntV 2)]
       = Inr [(''a'', IntV 3), (''b'', IntV 1), (''c'', IntV 2)]"
  using downsample_identity_or_stride
          [of to_real "[(''a'', IntV 3), (''b'', IntV 1), (''c'', IntV 2)]" 2]
        downsample_identity_or_stride
          [of to_real "[(''a'', IntV 3), (''b'', IntV 1), (''c'', IntV 2)]" 3]
  by (simp add: downsample_example)

text \<open>
  As first stated, the claim has the maximum in every output. Four samples with the
  values \<open>1, 2, 3, 4\<close> and the cap three are sampled with step two: the ranks zero and
  two are taken, and the maximum \<open>4\<close> is left out.
\<close>

theorem downsample_drops_maximum_counterexample:
  "downsample to_real (Some 3)
     [(''a'', IntV 1), (''b'', IntV 2), (''c'', IntV 3), (''d'', IntV 4)]
     = Inr [(''a'', IntV 1), (''c'', IntV 3)]
   \<and> Max (set (map to_real [IntV 1, IntV 2, IntV 3, IntV 4])) = 4
   \<and> 4 \<notin> set (map to_real [IntV 1, IntV 3])"
  by (simp add: downsample_def np_argsort_def slice_step_def)

subsection \<open>Assembling a bar dataset\<close>

lemma fix_cat_Inr:
  assumes "fix_cat split_name html_color samples' input_cat = Inr cat"
  shows "data cat = rev (in_data input_cat)
    \<and> length (in_data input_cat) = length samples'
    \<and> data_pct cat = (case in_data_pct input_cat of Some p \<Rightarrow> rev p | None \<Rightarrow> [])
    \<and> (data_pct cat \<noteq> [] \<longrightarrow> length (data_pct cat) = length samples')"
  using assms
  by (auto simp: fix_cat_def Let_def split: option.splits if_splits)

lemma fix_cats_Inr:
  assumes "fix_cats split_name html_color samples' cats_in = Inr fixed_cats"
  shows "length fixed_cats = length cats_in
    \<and> (\<forall>k < length cats_in.
          fix_cat split_name html_color samples' (cats_in ! k) = Inr (fixed_cats ! k))"
  using assms
proof (induction cats_in arbitrary: fixed_cats)
  case Nil
  then show ?case by simp
next
  case (Cons c cs)
  from Cons.prems obtain cat rest where
    c: "fix_cat split_name html_color samples' c = Inr cat"
    and r: "fix_cats split_name html_color samples' cs = Inr rest"
    and f: "fixed_cats = cat # rest"
    by (auto split: sum.splits)
  from Cons.IH [OF r] show ?case
    using c f by (auto simp: nth_Cons')
qed

lemma Dataset_create_Inr:
  assumes "Dataset_create split_name html_color cats_in samples_in = Inr dataset"
  shows "samples dataset = rev samples_in
    \<and> fix_cats split_name html_color (rev samples_in) cats_in = Inr (cats dataset)"
  using assms by (auto simp: Dataset_create_def Let_def split: sum.splits)

text \<open>The scenario of the specification: the categories X and Y over two samples.\<close>

lemma scenario_create: "Dataset_create id Some
     [\<lparr>in_name = Some ''X'', in_color = ''red'', in_data = [Num 1, Num 1], in_data_pct = None\<rparr>,
      \<lparr>in_name = Some ''Y'', in_color = ''blue'', in_data = [Num 1, Num 3], in_data_pct = None\<rparr>]
     [''s1'', ''s2'']
   = Inr \<lparr>cats = [\<lparr>name = ''X'', color = ''red'', data = [Num 1, Num 1], data_pct = []\<rparr>,
                  \<lparr>name = ''Y'', color = ''blue'', data = [Num 3, Num 1], data_pct = []\<rparr>],
          samples = [''s2'', ''s1'']\<rparr>"
  by (simp add: Dataset_create_def fix_cat_def)

lemma scenario_percentages: "calculate_percentages (expand_with_zeroes
     \<lparr>cats = [\<lparr>name = ''X'', color = ''red'', data = [Num 1, Num 1], data_pct = []\<rparr>,
                  \<lparr>name = ''Y'', color = ''blue'', data = [Num 3, Num 1], data_pct = []\<rparr>],
          samples = [''s2'', ''s1'']\<rparr>)
   = Inr \<lparr>cats = [\<lparr>name = ''X'', color = ''red'', data = [Num 1, Num 1], data_pct = [Num 25, Num 50]\<rparr>,
                  \<lparr>name = ''Y'', color = ''blue'', data = [Num 3, Num 1], data_pct = [Num 75, Num 50]\<rparr>],
          samples = [''s2'', ''s1'']\<rparr>"
  by (simp add: calculate_percentages_def expand_with_zeroes_def expand_cat_def enumerate_eq_zip)


text \<open>
  Claim C10. When \<^verbatim>\<open>Dataset.create\<close> succeeds, the sample list and the data list of
  every category (and its \<^verbatim>\<open>data_pct\<close> list, when one is given and not empty) are
  reversed together: position \<open>i\<close> of the assembled lists holds the sample and the
  value of position \<open>n - 1 - i\<close> of the input, so each value stays with its sample.
\<close>

theorem reversed_together:
  assumes "Dataset_create split_name html_color cats_in samples_in = Inr dataset"
  shows "samples dataset = rev samples_in
    \<and> length (cats dataset) = length cats_in
    \<and> (\<forall>k < length cats_in.
          zip (samples dataset) (data (cats dataset ! k))
            = rev (zip samples_in (in_data (cats_in ! k)))
        \<and> (\<forall>i < length samples_in.
              samples dataset ! i = samples_in ! (length samples_in - 1 - i)
            \<and> data (cats dataset ! k) ! i
                = in_data (cats_in ! k) ! (length samples_in - 1 - i))
        \<and> (\<forall>p. in_data_pct (cats_in ! k) = Some p \<and> p \<noteq> [] \<longrightarrow>
              zip (samples dataset) (data_pct (cats dataset ! k)) = rev (zip samples_in p)
            \<and> (\<forall>i < length samples_in.
                  data_pct (cats dataset ! k) ! i = p ! (length samples_in - 1 - i))))"
proof -
  note d = Dataset_create_Inr [OF assms]
  note f = fix_cats_Inr [OF conjunct2 [OF d]]
  have per_cat: "zip (samples dataset) (data (cats dataset ! k))
            = rev (zip samples_in (in_data (cats_in ! k)))
        \<and> (\<forall>i < length samples_in.
              samples dataset ! i = samples_in ! (length samples_in - 1 - i)
            \<and> data (cats dataset ! k) ! i
                = in_data (cats_in ! k) ! (length samples_in - 1 - i))
        \<and> (\<forall>p. in_data_pct (cats_in ! k) = Some p \<and> p \<noteq> [] \<longrightarrow>
              zip (samples dataset) (data_pct (cats dataset ! k)) = rev (zip samples_in p)
            \<and> (\<forall>i < length samples_in.
                  data_pct (cats dataset ! k) ! i = p ! (length samples_in - 1 - i)))"
    if k: "k < length cats_in" for k
  proof -
    from f k have "fix_cat split_name html_color (rev samples_in) (cats_in ! k)
                     = Inr (cats dataset ! k)"
      by simp
    note c = fix_cat_Inr [OF this]
    have len: "length (in_data (cats_in ! k)) = length samples_in" using c by simp
    have 1: "zip (samples dataset) (data (cats dataset ! k))
            = rev (zip samples_in (in_data (cats_in ! k)))"
      using c d len by (simp add: zip_rev)
    have 2: "samples dataset ! i = samples_in ! (length samples_in - 1 - i)
            \<and> data (cats dataset ! k) ! i
                = in_data (cats_in ! k) ! (length samples_in - 1 - i)"
      if "i < length samples_in" for i
      using c d len that by (simp add: rev_nth)
    have 3: "zip (samples dataset) (data_pct (cats dataset ! k)) = rev (zip samples_in p)
            \<and> (\<forall>i < length samples_in.
                  data_pct (cats dataset ! k) ! i = p ! (length samples_in - 1 - i))"
      if p: "in_data_pct (cats_in ! k) = Some p \<and> p \<noteq> []" for p
    proof -
      have dp: "data_pct (cats dataset ! k) = rev p" using c p by simp
      then have "length p = length samples_in" using c p by auto
      then show ?thesis using dp d by (simp add: zip_rev rev_nth)
    qed
    show ?thesis using 1 2 3 by blast
  qed
  show ?thesis using d f per_cat by simp
qed

text \<open>The theorem at two categories over two samples.\<close>

theorem reversed_together_witness:
  "Dataset_create id Some
     [\<lparr>in_name = Some ''X'', in_color = ''red'', in_data = [Num 1, Num 1], in_data_pct = None\<rparr>,
      \<lparr>in_name = Some ''Y'', in_color = ''blue'', in_data = [Num 1, Num 3], in_data_pct = None\<rparr>]
     [''s1'', ''s2'']
   = Inr \<lparr>cats = [\<lparr>name = ''X'', color = ''red'', data = [Num 1, Num 1], data_pct = []\<rparr>,
                  \<lparr>name = ''Y'', color = ''blue'', data = [Num 3, Num 1], data_pct = []\<rparr>],
          samples = [''s2'', ''s1'']\<rparr>
   \<and> zip [''s2'', ''s1''] [Num 3, Num 1] = rev (zip [''s1'', ''s2''] [Num 1, Num 3])"
  using reversed_together [OF scenario_create]
  by (simp add: scenario_create)

subsection \<open>Categories shorter than the sample list\<close>

lemma expand_cat_same: "length (data cat) = n \<Longrightarrow> expand_cat n cat = cat"
  by (simp add: expand_cat_def)

lemma expand_cat_short:
  "length (data cat) < n \<Longrightarrow>
     data (expand_cat n cat) = data cat @ replicate (n - length (data cat)) (Num 0)
     \<and> length (data (expand_cat n cat)) = n"
  by (simp add: expand_cat_def)

text \<open>
  Claim C8, as amended. \<^verbatim>\<open>Dataset.create\<close> only succeeds when the data list of every
  category is as long as the sample list, and fails when one is not. So after a
  successful assembly every data list has the length of the sample list, and the pass
  that expands data with zeroes leaves the dataset as it is. Applied to a category
  with a shorter data list, that pass appends zeros up to the number of samples.
\<close>

theorem short_category_is_rejected:
  "(\<forall>dataset. Dataset_create split_name html_color cats_in samples_in = Inr dataset \<longrightarrow>
        (\<forall>c \<in> set cats_in. length (in_data c) = length samples_in)
      \<and> (\<forall>cat \<in> set (cats dataset). length (data cat) = length (samples dataset))
      \<and> expand_with_zeroes dataset = dataset)
   \<and> ((\<exists>c \<in> set cats_in. length (in_data c) \<noteq> length samples_in) \<longrightarrow>
        (\<exists>e. Dataset_create split_name html_color cats_in samples_in = Inl e))
   \<and> (length (data cat) < n \<longrightarrow>
        data (expand_cat n cat) = data cat @ replicate (n - length (data cat)) (Num 0)
      \<and> length (data (expand_cat n cat)) = n)"
proof -
  have ok: "(\<forall>c \<in> set cats_in. length (in_data c) = length samples_in)
      \<and> (\<forall>cat \<in> set (cats dataset). length (data cat) = length (samples dataset))
      \<and> expand_with_zeroes dataset = dataset"
    if c: "Dataset_create split_name html_color cats_in samples_in = Inr dataset" for dataset
  proof -
    note d = Dataset_create_Inr [OF c]
    note f = fix_cats_Inr [OF conjunct2 [OF d]]
    have each: "length (in_data (cats_in ! k)) = length samples_in
        \<and> length (data (cats dataset ! k)) = length samples_in"
      if "k < length cats_in" for k
      using fix_cat_Inr [of split_name html_color "rev samples_in" "cats_in ! k"
          "cats dataset ! k"] f that
      by simp
    have a: "\<forall>c \<in> set cats_in. length (in_data c) = length samples_in"
      using each by (auto simp: in_set_conv_nth)
    have b: "\<forall>cat \<in> set (cats dataset). length (data cat) = length (samples dataset)"
      using each f d by (auto simp: in_set_conv_nth)
    have "map (expand_cat (length (samples dataset))) (cats dataset) = cats dataset"
      using b by (simp add: expand_cat_same map_idI)
    then have "expand_with_zeroes dataset = dataset"
      by (simp add: expand_with_zeroes_def)
    then show ?thesis using a b by blast
  qed
  have bad: "\<exists>e. Dataset_create split_name html_color cats_in samples_in = Inl e"
    if "\<exists>c \<in> set cats_in. length (in_data c) \<noteq> length samples_in"
  proof (cases "Dataset_create split_name html_color cats_in samples_in")
    case (Inl e)
    then show ?thesis by blast
  next
    case (Inr dataset)
    then show ?thesis using ok [OF Inr] that by blast
  qed
  show ?thesis using ok bad expand_cat_short [of cat n] by blast
qed

text \<open>The theorem at the scenario, and the padding at a category with one value.\<close>

theorem short_category_is_rejected_witness:
  "Dataset_create id Some
     [\<lparr>in_name = Some ''X'', in_color = ''red'', in_data = [Num 1, Num 1], in_data_pct = None\<rparr>,
      \<lparr>in_name = Some ''Y'', in_color = ''blue'', in_data = [Num 1, Num 3], in_data_pct = None\<rparr>]
     [''s1'', ''s2'']
   = Inr \<lparr>cats = [\<lparr>name = ''X'', color = ''red'', data = [Num 1, Num 1], data_pct = []\<rparr>,
                  \<lparr>name = ''Y'', color = ''blue'', data = [Num 3, Num 1], data_pct = []\<rparr>],
          samples = [''s2'', ''s1'']\<rparr>
   \<and> expand_with_zeroes
        \<lparr>cats = [\<lparr>name = ''X'', color = ''red'', data = [Num 1, Num 1], data_pct = []\<rparr>,
                  \<lparr>name = ''Y'', color = ''blue'', data = [Num 3, Num 1], data_pct = []\<rparr>],
          samples = [''s2'', ''s1'']\<rparr>
      = \<lparr>cats = [\<lparr>name = ''X'', color = ''red'', data = [Num 1, Num 1], data_pct = []\<rparr>,
                  \<lparr>name = ''Y'', color = ''blue'', data = [Num 3, Num 1], data_pct = []\<rparr>],
          samples = [''s2'', ''s1'']\<rparr>
   \<and> data (expand_cat 2 \<lparr>name = ''X'', color = ''red'', data = [Num 1], data_pct = []\<rparr>)
      = [Num 1, Num 0]"
  using short_category_is_rejected [of id Some
     "[\<lparr>in_name = Some ''X'', in_color = ''red'', in_data = [Num 1, Num 1], in_data_pct = None\<rparr>,
      \<lparr>in_name = Some ''Y'', in_color = ''blue'', in_data = [Num 1, Num 3], in_data_pct = None\<rparr>]"
     "[''s1'', ''s2'']"
     "\<lparr>name = ''X'', color = ''red'', data = [Num 1], data_pct = []\<rparr>" 2]
  by (simp add: scenario_create numeral_2_eq_2)

text \<open>
  As first stated, the claim has a short category padded instead of an error. A
  category with one value over two samples fails the length assertion.
\<close>

theorem short_category_raises_counterexample:
  "Dataset_create id Some
     [\<lparr>in_name = Some ''X'', in_color = ''red'', in_data = [Num 1], in_data_pct = None\<rparr>]
     [''s1'', ''s2'']
   = Inl AssertionError"
  by (simp add: Dataset_create_def fix_cat_def)

subsection \<open>The percentage pass\<close>

lemma add_abs_enumerate:
  assumes "j + length vs \<le> length totals"
  shows "\<exists>t'. add_abs totals (enumerate j vs) = Inr t' \<and> length t' = length totals
    \<and> (\<forall>i < length totals.
          t' ! i = totals ! i
             + (if j \<le> i \<and> i < j + length vs then abs_or_zero (vs ! (i - j)) else 0))"
  using assms
proof (induction vs arbitrary: j totals)
  case Nil
  then show ?case by simp
next
  case (Cons v vs)
  show ?case
  proof (cases v)
    case NaN
    have "Suc j + length vs \<le> length totals" using Cons.prems by simp
    from Cons.IH [OF this] obtain t' where
      t: "add_abs totals (enumerate (Suc j) vs) = Inr t'" "length t' = length totals"
        "\<forall>i < length totals. t' ! i = totals ! i
           + (if Suc j \<le> i \<and> i < Suc j + length vs then abs_or_zero (vs ! (i - Suc j)) else 0)"
      by blast
    have "t' ! i = totals ! i
        + (if j \<le> i \<and> i < j + length (v # vs) then abs_or_zero ((v # vs) ! (i - j)) else 0)"
      if "i < length totals" for i
      using t(3) that NaN by (cases "i = j") (auto simp: nth_Cons' Suc_le_eq)
    then show ?thesis using t(1,2) NaN by simp
  next
    case (Num r)
    define totals1 where "totals1 = totals[j := totals ! j + \<bar>r\<bar>]"
    have j: "j < length totals" using Cons.prems by simp
    have "Suc j + length vs \<le> length totals1" using Cons.prems by (simp add: totals1_def)
    from Cons.IH [OF this] obtain t' where
      t: "add_abs totals1 (enumerate (Suc j) vs) = Inr t'" "length t' = length totals1"
        "\<forall>i < length totals1. t' ! i = totals1 ! i
           + (if Suc j \<le> i \<and> i < Suc j + length vs then abs_or_zero (vs ! (i - Suc j)) else 0)"
      by blast
    have "t' ! i = totals ! i
        + (if j \<le> i \<and> i < j + length (v # vs) then abs_or_zero ((v # vs) ! (i - j)) else 0)"
      if "i < length totals" for i
      using t(3) that Num j
      by (cases "i = j") (auto simp: nth_Cons' Suc_le_eq totals1_def)
    then show ?thesis using t(1,2) Num j by (simp add: totals1_def)
  qed
qed

lemma count_totals_ok:
  assumes "\<forall>cat \<in> set cs. length (data cat) = length totals"
  shows "\<exists>t'. count_totals totals cs = Inr t' \<and> length t' = length totals
    \<and> (\<forall>i < length totals. t' ! i = totals ! i + denominator cs i)"
  using assms
proof (induction cs arbitrary: totals)
  case Nil
  then show ?case by (simp add: denominator_def)
next
  case (Cons c cs)
  have "0 + length (data c) \<le> length totals" using Cons.prems by simp
  from add_abs_enumerate [OF this] obtain t1 where
    t1: "add_abs totals (enumerate 0 (data c)) = Inr t1" "length t1 = length totals"
      "\<forall>i < length totals. t1 ! i = totals ! i + abs_or_zero (data c ! i)"
    using Cons.prems by auto
  have "\<forall>cat \<in> set cs. length (data cat) = length t1" using Cons.prems t1(2) by simp
  from Cons.IH [OF this] obtain t' where
    t': "count_totals t1 cs = Inr t'" "length t' = length t1"
      "\<forall>i < length t1. t' ! i = t1 ! i + denominator cs i"
    by blast
  have "t' ! i = totals ! i + denominator (c # cs) i" if "i < length totals" for i
    using t1(2,3) t'(3) that by (simp add: denominator_def)
  then show ?case using t1(1,2) t'(1,2) by simp
qed

lemma pct_values_enumerate:
  assumes "j + length vs \<le> length totals"
  shows "pct_values totals (enumerate j vs)
    = Inr (map (\<lambda>(i, v). if totals ! i = 0 then Num 0 else percentage v (totals ! i))
             (enumerate j vs))"
  using assms by (induction vs arbitrary: j) auto

lemma set_data_pct_ok:
  assumes "\<forall>cat \<in> set cs. length (data cat) \<le> length totals"
  shows "set_data_pct totals cs
    = Inr (map (\<lambda>cat. cat\<lparr>data_pct :=
                  map (\<lambda>(i, v). if totals ! i = 0 then Num 0 else percentage v (totals ! i))
                    (enumerate 0 (data cat))\<rparr>) cs)"
  using assms by (induction cs) (auto simp: pct_values_enumerate)

lemma denominator_nonneg: "0 \<le> denominator cs i"
  unfolding denominator_def
proof (induction cs)
  case Nil show ?case by simp
next
  case (Cons c cs)
  have "0 \<le> abs_or_zero (data c ! i)" by (cases "data c ! i") auto
  then show ?case using Cons by simp
qed

lemma abs_or_zero_percentage:
  "0 < d \<Longrightarrow> abs_or_zero (percentage v d) = abs_or_zero v / d * 100"
  by (cases v) (auto simp: abs_mult)

lemma sum_abs_percentages:
  assumes "0 < d"
  shows "sum_list (map (\<lambda>cat. abs_or_zero (percentage (data cat ! i) d)) cs)
           = denominator cs i / d * 100"
  unfolding denominator_def
  by (induction cs) (auto simp: abs_or_zero_percentage [OF assms] add_divide_distrib distrib_right)

lemma foldl_pf_add_abs:
  assumes "NaN \<notin> set xs"
  shows "foldl pf_add (Num a) (map pf_abs xs) = Num (a + sum_list (map abs_or_zero xs))"
  using assms
proof (induction xs arbitrary: a)
  case Nil show ?case by simp
next
  case (Cons x xs)
  then show ?case by (cases x) (auto simp: add.assoc)
qed


lemma calculate_percentages_ok:
  assumes ne: "cats dataset \<noteq> []"
    and len: "\<forall>cat \<in> set (cats dataset). length (data cat) = length (samples dataset)"
  shows "calculate_percentages dataset
    = Inr (dataset\<lparr>cats :=
        map (\<lambda>cat. cat\<lparr>data_pct :=
               map (\<lambda>(i, v). if denominator (cats dataset) i = 0 then Num 0
                               else percentage v (denominator (cats dataset) i))
                 (enumerate 0 (data cat))\<rparr>)
          (cats dataset)\<rparr>)"
proof -
  define n where "n = length (samples dataset)"
  obtain cat0 rest where c0: "cats dataset = cat0 # rest"
    using ne by (cases "cats dataset") auto
  have l0: "length (data cat0) = n" using len c0 by (simp add: n_def)
  have "\<forall>cat \<in> set (cats dataset). length (data cat) = length (map (\<lambda>_. 0 :: real) (data cat0))"
    using len l0 by (simp add: n_def)
  from count_totals_ok [OF this] obtain totals where
    t: "count_totals (map (\<lambda>_. 0) (data cat0)) (cats dataset) = Inr totals"
      "length totals = n"
      "\<forall>i < n. totals ! i = denominator (cats dataset) i"
    using l0 by auto
  have "\<forall>cat \<in> set (cats dataset). length (data cat) \<le> length totals"
    using len t(2) by (simp add: n_def)
  note sp = set_data_pct_ok [OF this]
  have "map (\<lambda>(i, v). if totals ! i = 0 then Num 0 else percentage v (totals ! i))
          (enumerate 0 (data cat))
      = map (\<lambda>(i, v). if denominator (cats dataset) i = 0 then Num 0
                        else percentage v (denominator (cats dataset) i))
          (enumerate 0 (data cat))"
    if "cat \<in> set (cats dataset)" for cat
  proof (rule map_cong [OF refl])
    fix x assume "x \<in> set (enumerate 0 (data cat))"
    then have "fst x < n" using len that by (auto simp: in_set_enumerate_eq n_def)
    then show "(case x of (i, v) \<Rightarrow> if totals ! i = 0 then Num 0 else percentage v (totals ! i))
        = (case x of (i, v) \<Rightarrow> if denominator (cats dataset) i = 0 then Num 0
                        else percentage v (denominator (cats dataset) i))"
      using t(3) by (cases x) simp
  qed
  then have "map (\<lambda>cat. cat\<lparr>data_pct :=
               map (\<lambda>(i, v). if totals ! i = 0 then Num 0 else percentage v (totals ! i))
                 (enumerate 0 (data cat))\<rparr>) (cats dataset)
      = map (\<lambda>cat. cat\<lparr>data_pct :=
               map (\<lambda>(i, v). if denominator (cats dataset) i = 0 then Num 0
                               else percentage v (denominator (cats dataset) i))
                 (enumerate 0 (data cat))\<rparr>) (cats dataset)"
    by (intro map_cong) auto
  then show ?thesis
    using t(1) sp c0 by (simp add: calculate_percentages_def)
qed

lemma percentages_general:
  assumes "cats dataset \<noteq> []"
    and "\<forall>cat \<in> set (cats dataset). length (data cat) = length (samples dataset)"
  shows "\<exists>cs. calculate_percentages dataset = Inr (dataset\<lparr>cats := cs\<rparr>)
    \<and> length cs = length (cats dataset)
    \<and> (\<forall>k < length cs. cs ! k = (cats dataset ! k)\<lparr>data_pct := data_pct (cs ! k)\<rparr>
          \<and> length (data_pct (cs ! k)) = length (samples dataset))
    \<and> (\<forall>i < length (samples dataset).
          (denominator (cats dataset) i = 0 \<longrightarrow>
             (\<forall>k < length cs. data_pct (cs ! k) ! i = Num 0))
        \<and> (denominator (cats dataset) i \<noteq> 0 \<longrightarrow>
             (\<forall>k < length cs. data_pct (cs ! k) ! i
                = percentage (data (cats dataset ! k) ! i) (denominator (cats dataset) i))
           \<and> abs_pct_sum_not_nan cs i = 100
           \<and> ((\<forall>k < length cs. data (cats dataset ! k) ! i \<noteq> NaN) \<longrightarrow>
                abs_pct_sum cs i = Num 100)))"
proof -
  define n where "n = length (samples dataset)"
  define D where "D = denominator (cats dataset)"
  define pct where "pct = (\<lambda>(i, v). if D i = 0 then Num 0 else percentage v (D i))"
  define cs where "cs = map (\<lambda>cat. cat\<lparr>data_pct := map pct (enumerate 0 (data cat))\<rparr>)
                          (cats dataset)"
  have res: "calculate_percentages dataset = Inr (dataset\<lparr>cats := cs\<rparr>)"
    using calculate_percentages_ok [OF assms] unfolding cs_def pct_def D_def .
  have lcs: "length cs = length (cats dataset)" by (simp add: cs_def)
  have lk: "length (data (cats dataset ! k)) = n" if "k < length cs" for k
    using assms(2) that lcs by (simp add: n_def)
  have csk: "cs ! k = (cats dataset ! k)\<lparr>data_pct := map pct (enumerate 0 (data (cats dataset ! k)))\<rparr>"
    if "k < length cs" for k
    using that lcs by (simp add: cs_def)
  have a: "cs ! k = (cats dataset ! k)\<lparr>data_pct := data_pct (cs ! k)\<rparr>
          \<and> length (data_pct (cs ! k)) = n" if "k < length cs" for k
    using csk [OF that] lk [OF that] by simp
  have val: "data_pct (cs ! k) ! i
      = (if D i = 0 then Num 0 else percentage (data (cats dataset ! k) ! i) (D i))"
    if "k < length cs" "i < n" for k i
    using csk [OF that(1)] lk [OF that(1)] that(2) by (simp add: pct_def nth_enumerate_eq)
  have col: "map (\<lambda>cat. f (data_pct cat ! i)) cs
      = map (\<lambda>cat. f (percentage (data cat ! i) (D i))) (cats dataset)"
    if "i < n" "D i \<noteq> 0" for i and f :: "pyfloat \<Rightarrow> 'b"
  proof (rule nth_equalityI)
    show "length (map (\<lambda>cat. f (data_pct cat ! i)) cs)
        = length (map (\<lambda>cat. f (percentage (data cat ! i) (D i))) (cats dataset))"
      using lcs by simp
    fix k assume "k < length (map (\<lambda>cat. f (data_pct cat ! i)) cs)"
    then have k: "k < length cs" by simp
    show "map (\<lambda>cat. f (data_pct cat ! i)) cs ! k
        = map (\<lambda>cat. f (percentage (data cat ! i) (D i))) (cats dataset) ! k"
      using val [OF k that(1)] that(2) k lcs by simp
  qed
  have b: "abs_pct_sum_not_nan cs i = 100" if "i < n" "D i \<noteq> 0" for i
  proof -
    have pos: "0 < D i" using that(2) denominator_nonneg [of "cats dataset" i]
      by (simp add: D_def)
    have "abs_pct_sum_not_nan cs i
        = sum_list (map (\<lambda>cat. abs_or_zero (percentage (data cat ! i) (D i))) (cats dataset))"
      unfolding abs_pct_sum_not_nan_def by (simp only: col [OF that])
    also have "\<dots> = D i / D i * 100"
      using sum_abs_percentages [OF pos, of i "cats dataset"] by (simp add: D_def)
    finally show ?thesis using pos by simp
  qed
  have c: "abs_pct_sum cs i = Num 100"
    if "i < n" "D i \<noteq> 0" "\<forall>k < length cs. data (cats dataset ! k) ! i \<noteq> NaN" for i
  proof -
    have nn: "NaN \<notin> set (map (\<lambda>cat. data_pct cat ! i) cs)"
    proof
      assume "NaN \<in> set (map (\<lambda>cat. data_pct cat ! i) cs)"
      then obtain k where k: "k < length cs" "data_pct (cs ! k) ! i = NaN"
        by (auto simp: in_set_conv_nth)
      then have "percentage (data (cats dataset ! k) ! i) (D i) = NaN"
        using val [OF k(1) that(1)] that(2) by simp
      then have "data (cats dataset ! k) ! i = NaN"
        by (cases "data (cats dataset ! k) ! i") auto
      then show False using that(3) k(1) by simp
    qed
    have "abs_pct_sum cs i
        = foldl pf_add (Num 0) (map pf_abs (map (\<lambda>cat. data_pct cat ! i) cs))"
      by (simp add: abs_pct_sum_def comp_def)
    also have "\<dots> = Num (0 + sum_list (map abs_or_zero (map (\<lambda>cat. data_pct cat ! i) cs)))"
      by (rule foldl_pf_add_abs [OF nn])
    also have "\<dots> = Num (abs_pct_sum_not_nan cs i)"
      by (simp add: abs_pct_sum_not_nan_def comp_def)
    finally show ?thesis using b [OF that(1,2)] by simp
  qed
  show ?thesis
    using res lcs a val b c unfolding n_def D_def
    by (intro exI [of _ cs] conjI allI impI; simp)
qed

text \<open>
  Claim C3, as amended. For a dataset with at least one category whose data lists all
  have the length of the sample list, the percentage pass succeeds and changes only
  the \<^verbatim>\<open>data_pct\<close> lists. At every sample index the denominator is the sum of the
  absolute values of the entries that are not NaN. With a zero denominator every
  percentage at that index is \<open>0\<close>. Otherwise the percentage of an entry is
  \<open>value / denominator * 100\<close>, NaN for a NaN entry; the absolute percentages of the
  entries that are not NaN add up to \<open>100\<close>, and so do the absolute percentages of all
  entries when none of them is NaN. The categories \<open>X = [1, 1]\<close> and \<open>Y = [1, 3]\<close> over
  the samples \<open>s1, s2\<close> get \<open>X = 50, Y = 50\<close> at \<open>s1\<close> and \<open>X = 25, Y = 75\<close> at \<open>s2\<close>.
\<close>

theorem percentages_of:
  assumes "cats dataset \<noteq> []"
    and "\<forall>cat \<in> set (cats dataset). length (data cat) = length (samples dataset)"
  shows "(\<exists>cs. calculate_percentages dataset = Inr (dataset\<lparr>cats := cs\<rparr>)
    \<and> length cs = length (cats dataset)
    \<and> (\<forall>k < length cs. cs ! k = (cats dataset ! k)\<lparr>data_pct := data_pct (cs ! k)\<rparr>
          \<and> length (data_pct (cs ! k)) = length (samples dataset))
    \<and> (\<forall>i < length (samples dataset).
          (denominator (cats dataset) i = 0 \<longrightarrow>
             (\<forall>k < length cs. data_pct (cs ! k) ! i = Num 0))
        \<and> (denominator (cats dataset) i \<noteq> 0 \<longrightarrow>
             (\<forall>k < length cs. data_pct (cs ! k) ! i
                = percentage (data (cats dataset ! k) ! i) (denominator (cats dataset) i))
           \<and> abs_pct_sum_not_nan cs i = 100
           \<and> ((\<forall>k < length cs. data (cats dataset ! k) ! i \<noteq> NaN) \<longrightarrow>
                abs_pct_sum cs i = Num 100))))
   \<and> Dataset_create id Some
       [\<lparr>in_name = Some ''X'', in_color = ''red'', in_data = [Num 1, Num 1],
         in_data_pct = None\<rparr>,
        \<lparr>in_name = Some ''Y'', in_color = ''blue'', in_data = [Num 1, Num 3],
         in_data_pct = None\<rparr>]
       [''s1'', ''s2'']
     = Inr \<lparr>cats = [\<lparr>name = ''X'', color = ''red'', data = [Num 1, Num 1], data_pct = []\<rparr>,
                    \<lparr>name = ''Y'', color = ''blue'', data = [Num 3, Num 1], data_pct = []\<rparr>],
            samples = [''s2'', ''s1'']\<rparr>
   \<and> calculate_percentages (expand_with_zeroes
       \<lparr>cats = [\<lparr>name = ''X'', color = ''red'', data = [Num 1, Num 1], data_pct = []\<rparr>,
                \<lparr>name = ''Y'', color = ''blue'', data = [Num 3, Num 1], data_pct = []\<rparr>],
        samples = [''s2'', ''s1'']\<rparr>)
     = Inr \<lparr>cats = [\<lparr>name = ''X'', color = ''red'', data = [Num 1, Num 1],
                     data_pct = [Num 25, Num 50]\<rparr>,
                    \<lparr>name = ''Y'', color = ''blue'', data = [Num 3, Num 1],
                     data_pct = [Num 75, Num 50]\<rparr>],
            samples = [''s2'', ''s1'']\<rparr>"
  using percentages_general [OF assms] scenario_create scenario_percentages
  by (intro conjI)

text \<open>The theorem at the dataset of the scenario.\<close>

theorem percentages_of_witness:
  "cats \<lparr>cats = [\<lparr>name = ''X'', color = ''red'', data = [Num 1, Num 1], data_pct = []\<rparr>,
                 \<lparr>name = ''Y'', color = ''blue'', data = [Num 3, Num 1], data_pct = []\<rparr>],
          samples = [''s2'', ''s1'']\<rparr> \<noteq> []
   \<and> calculate_percentages
       \<lparr>cats = [\<lparr>name = ''X'', color = ''red'', data = [Num 1, Num 1], data_pct = []\<rparr>,
                \<lparr>name = ''Y'', color = ''blue'', data = [Num 3, Num 1], data_pct = []\<rparr>],
        samples = [''s2'', ''s1'']\<rparr>
     = Inr \<lparr>cats = [\<lparr>name = ''X'', color = ''red'', data = [Num 1, Num 1],
                     data_pct = [Num 25, Num 50]\<rparr>,
                    \<lparr>name = ''Y'', color = ''blue'', data = [Num 3, Num 1],
                     data_pct = [Num 75, Num 50]\<rparr>],
            samples = [''s2'', ''s1'']\<rparr>
   \<and> abs_pct_sum
       [\<lparr>name = ''X'', color = ''red'', data = [Num 1, Num 1], data_pct = [Num 25, Num 50]\<rparr>,
        \<lparr>name = ''Y'', color = ''blue'', data = [Num 3, Num 1], data_pct = [Num 75, Num 50]\<rparr>]
       0 = Num 100"
proof -
  have h1: "cats \<lparr>cats = [\<lparr>name = ''X'', color = ''red'', data = [Num 1, Num 1], data_pct = []\<rparr>,
                 \<lparr>name = ''Y'', color = ''blue'', data = [Num 3, Num 1], data_pct = []\<rparr>],
          samples = [''s2'', ''s1'']\<rparr> \<noteq> []"
    by simp
  have h2: "\<forall>cat \<in> set (cats
       \<lparr>cats = [\<lparr>name = ''X'', color = ''red'', data = [Num 1, Num 1], data_pct = []\<rparr>,
                \<lparr>name = ''Y'', color = ''blue'', data = [Num 3, Num 1], data_pct = []\<rparr>],
        samples = [''s2'', ''s1'']\<rparr>).
      length (data cat) = length (samples
       \<lparr>cats = [\<lparr>name = ''X'', color = ''red'', data = [Num 1, Num 1], data_pct = []\<rparr>,
                \<lparr>name = ''Y'', color = ''blue'', data = [Num 3, Num 1], data_pct = []\<rparr>],
        samples = [''s2'', ''s1'']\<rparr>)"
    by simp
  show ?thesis
    using percentages_of [OF h1 h2]
    by (simp add: calculate_percentages_def enumerate_eq_zip abs_pct_sum_def)
qed

text \<open>
  As first stated, the claim has the absolute percentages add up to \<open>100\<close> at every
  sample index with a non-zero category. With \<open>X = [NaN]\<close> and \<open>Y = [1]\<close> the category
  \<open>Y\<close> is not zero, the percentage of \<open>X\<close> is NaN and that of \<open>Y\<close> is \<open>100\<close>, and their
  float sum is NaN.
\<close>

theorem percentages_with_nan_counterexample:
  "calculate_percentages
       \<lparr>cats = [\<lparr>name = ''X'', color = ''red'', data = [NaN], data_pct = []\<rparr>,
                \<lparr>name = ''Y'', color = ''blue'', data = [Num 1], data_pct = []\<rparr>],
        samples = [''s1'']\<rparr>
     = Inr \<lparr>cats = [\<lparr>name = ''X'', color = ''red'', data = [NaN], data_pct = [NaN]\<rparr>,
                    \<lparr>name = ''Y'', color = ''blue'', data = [Num 1], data_pct = [Num 100]\<rparr>],
            samples = [''s1'']\<rparr>
   \<and> abs_pct_sum
       [\<lparr>name = ''X'', color = ''red'', data = [NaN], data_pct = [NaN]\<rparr>,
        \<lparr>name = ''Y'', color = ''blue'', data = [Num 1], data_pct = [Num 100]\<rparr>] 0
     \<noteq> Num 100"
  by (simp add: calculate_percentages_def enumerate_eq_zip abs_pct_sum_def)

end
